theory Spec2Isabelle
  imports Main "HOL-Library.Word"
begin

section \<open>Go values the package works on\<close>

text \<open>
  \<^verbatim>\<open>tls.CurveID\<close> is a \<^verbatim>\<open>uint16\<close>; the four named curves carry the
  identifiers of the TLS registry, as \<^verbatim>\<open>crypto/tls\<close> declares them.
\<close>

type_synonym CurveID = "16 word"

definition CurveP256 :: CurveID where
  "CurveP256 = 23"

definition CurveP384 :: CurveID where
  "CurveP384 = 24"

definition CurveP521 :: CurveID where
  "CurveP521 = 25"

definition X25519 :: CurveID where
  "X25519 = 29"

text \<open>
  \<^verbatim>\<open>tls.Config\<close>, with its value-typed settings (the remaining fields of the Go struct
  are pointers, functions and interfaces whose zero value is nil; they behave like the
  fields kept here under a whole-struct assignment). A nil slice is the empty list.
\<close>

record Config =
  ServerName :: string
  InsecureSkipVerify :: bool
  NextProtos :: "string list"
  CipherSuites :: "16 word list"
  MinVersion :: "16 word"
  MaxVersion :: "16 word"
  CurvePreferences :: "CurveID list"

text \<open>The zero value of \<^verbatim>\<open>tls.Config\<close>, which a composite literal starts from.\<close>

definition Config_zero :: Config where
  "Config_zero = \<lparr>ServerName = [], InsecureSkipVerify = False, NextProtos = [],
     CipherSuites = [], MinVersion = 0, MaxVersion = 0, CurvePreferences = []\<rparr>"

text \<open>
  \<^verbatim>\<open>http.Transport\<close>: the TLS slot (a \<^verbatim>\<open>*tls.Config\<close>, \<open>None\<close> when nil) and some of
  its other settings. The object is passed along explicitly: the transport a caller
  hands to the package is read back from the decorator that holds the same pointer.
\<close>

record Transport =
  TLSClientConfig :: "Config option"
  DisableKeepAlives :: bool
  DisableCompression :: bool
  MaxIdleConns :: int
  ForceAttemptHTTP2 :: bool

definition Transport_zero :: Transport where
  "Transport_zero = \<lparr>TLSClientConfig = None, DisableKeepAlives = False,
     DisableCompression = False, MaxIdleConns = 0, ForceAttemptHTTP2 = False\<rparr>"

text \<open>
  \<^verbatim>\<open>http.Header\<close> is \<^verbatim>\<open>map[string][]string\<close>. The header field of a request may be
  the nil map (\<open>None\<close>), which reads as empty and panics on assignment.
\<close>

type_synonym Header = "string \<rightharpoonup> string list"

record Request =
  Method :: string
  URL :: string
  Header :: "Header option"

datatype panic = NilMapAssignment | NilPointerDereference | IndexOutOfRange

text \<open>
  Go maps are reference values. The \<^verbatim>\<open>map[string]string\<close> objects live in a store,
  addressed by their position; a map variable holds an address, or \<open>None\<close> for nil.
\<close>

type_synonym store = "(string \<rightharpoonup> string) list"

definition map_read :: "store \<Rightarrow> nat option \<Rightarrow> (string \<rightharpoonup> string)" where
  "map_read s m = (case m of None \<Rightarrow> Map.empty
     | Some a \<Rightarrow> if a < length s then s ! a else Map.empty)"

text \<open>\<^verbatim>\<open>m[k] = v\<close>: panics on the nil map.\<close>

definition map_assign :: "store \<Rightarrow> nat option \<Rightarrow> string \<Rightarrow> string \<Rightarrow> panic + store" where
  "map_assign s m k v = (case m of None \<Rightarrow> Inl NilMapAssignment
     | Some a \<Rightarrow> Inr (if a < length s then s[a := (s ! a)(k \<mapsto> v)] else s))"

text \<open>\<^verbatim>\<open>delete(m, k)\<close>: a no-op on the nil map.\<close>

definition map_delete :: "store \<Rightarrow> nat option \<Rightarrow> string \<Rightarrow> store" where
  "map_delete s m k = (case m of None \<Rightarrow> s
     | Some a \<Rightarrow> if a < length s then s[a := (s ! a)(k := None)] else s)"

text \<open>\<^verbatim>\<open>make\<close> or a map literal: a new object at a fresh address.\<close>

definition map_new :: "store \<Rightarrow> (string \<rightharpoonup> string) \<Rightarrow> nat option \<times> store" where
  "map_new s m = (Some (length s), s @ [m])"

record Options =
  AddMissingHeaders :: bool
  Headers :: "nat option"

text \<open>
  An \<^verbatim>\<open>http.RoundTripper\<close> interface value: nil, a \<^verbatim>\<open>*http.Transport\<close> (whose
  pointer may itself be nil), or any other implementation, given by what its
  \<^verbatim>\<open>RoundTrip\<close> returns: a response pointer and an error, each nil or not.
\<close>

datatype ('resp, 'err) RoundTripper =
    Nil_RoundTripper
  | Transport_ptr "Transport option"
  | Other_RoundTripper "Request \<Rightarrow> 'resp option \<times> 'err option"

record ('resp, 'err) cloudFlareRoundTripper =
  inner :: "('resp, 'err) RoundTripper"
  options :: Options

section \<open>Header names: \<^verbatim>\<open>textproto.CanonicalMIMEHeaderKey\<close>\<close>

text \<open>
  \<^verbatim>\<open>http.Header.Set\<close> stores under the canonical form of the name. The standard
  library returns a name with a byte outside the token alphabet unchanged; otherwise
  the first letter and every letter after a hyphen is made upper case and every other
  letter lower case.
\<close>

definition is_lower :: "char \<Rightarrow> bool" where
  "is_lower c = ((97::nat) \<le> of_char c \<and> of_char c \<le> (122::nat))"

definition is_upper :: "char \<Rightarrow> bool" where
  "is_upper c = ((65::nat) \<le> of_char c \<and> of_char c \<le> (90::nat))"

definition is_digit :: "char \<Rightarrow> bool" where
  "is_digit c = ((48::nat) \<le> of_char c \<and> of_char c \<le> (57::nat))"

definition validHeaderFieldByte :: "char \<Rightarrow> bool" where
  "validHeaderFieldByte c = (is_lower c \<or> is_upper c \<or> is_digit c \<or>
     (of_char c :: nat) \<in> {33, 35, 36, 37, 38, 39, 42, 43, 45, 46, 94, 95, 96, 124, 126})"

definition to_upper :: "char \<Rightarrow> char" where
  "to_upper c = char_of (of_char c - (32::nat))"

definition to_lower :: "char \<Rightarrow> char" where
  "to_lower c = char_of (of_char c + (32::nat))"

fun canonical_bytes :: "bool \<Rightarrow> string \<Rightarrow> string" where
  "canonical_bytes upper [] = []"
| "canonical_bytes upper (c # cs) =
     (let c' = (if upper \<and> is_lower c then to_upper c
                else if \<not> upper \<and> is_upper c then to_lower c
                else c)
      in c' # canonical_bytes (c' = CHR ''-'') cs)"

definition CanonicalMIMEHeaderKey :: "string \<Rightarrow> string" where
  "CanonicalMIMEHeaderKey s =
     (if list_all validHeaderFieldByte s then canonical_bytes True s else s)"

text \<open>\<^verbatim>\<open>h.Set(key, value)\<close> on a map that is not nil.\<close>

definition Header_Set :: "Header \<Rightarrow> string \<Rightarrow> string \<Rightarrow> Header" where
  "Header_Set h key val = h(CanonicalMIMEHeaderKey key \<mapsto> [val])"

section \<open>The package\<close>

text \<open>\<^verbatim>\<open>getCloudFlareTLSConfiguration\<close>: a new configuration with one field set.\<close>

definition getCloudFlareTLSConfiguration :: Config where
  "getCloudFlareTLSConfiguration =
     Config_zero\<lparr>CurvePreferences := [CurveP256, CurveP384, CurveP521, X25519]\<rparr>"

text \<open>\<^verbatim>\<open>GetDefaultOptions\<close>: the map literal allocates a new map at every call.\<close>

definition default_Headers :: "string \<rightharpoonup> string" where
  "default_Headers =
     [''Accept'' \<mapsto> ''text/html,application/xhtml+xml,application/xml;q=0.9,image/webp,image/apng,*/*;q=0.8'',
      ''Accept-Language'' \<mapsto> ''en-US,en;q=0.5'',
      ''User-Agent'' \<mapsto> ''Mozilla/5.0 (Windows NT 10.0; Win64; x64) AppleWebKit/537.36 (KHTML, like Gecko) Chrome/127.0.0.0 Safari/537.36 Edg/127.0.0.0'']"

definition GetDefaultOptions :: "store \<Rightarrow> Options \<times> store" where
  "GetDefaultOptions s =
     (let (m, s') = map_new s default_Headers
      in (\<lparr>AddMissingHeaders = True, Headers = m\<rparr>, s'))"

text \<open>
  \<^verbatim>\<open>AddCloudFlareByPass\<close>. The variadic parameter is a slice: nil (\<open>None\<close>) when the
  call passes no Options, otherwise the values passed; a call that spreads a slice
  passes that slice, which may be empty without being nil. The assignment to the TLS
  slot comes first, as in the source; a panic ends the call and returns nothing.
\<close>

definition AddCloudFlareByPass ::
  "('resp, 'err) RoundTripper \<Rightarrow> Options list option \<Rightarrow> store \<Rightarrow>
     panic + (('resp, 'err) cloudFlareRoundTripper \<times> store)" where
  "AddCloudFlareByPass inner0 opts s =
     (case (case inner0 of
              Transport_ptr None \<Rightarrow> Inl NilPointerDereference
            | Transport_ptr (Some t) \<Rightarrow>
                Inr (Transport_ptr (Some (t\<lparr>TLSClientConfig := Some getCloudFlareTLSConfiguration\<rparr>)))
            | Nil_RoundTripper \<Rightarrow> Inr inner0
            | Other_RoundTripper f \<Rightarrow> Inr inner0) of
        Inl p \<Rightarrow> Inl p
      | Inr inner1 \<Rightarrow>
          (case opts of
             None \<Rightarrow> (let (d, s') = GetDefaultOptions s
                       in Inr (\<lparr>inner = inner1, options = d\<rparr>, s'))
           | Some [] \<Rightarrow> Inl IndexOutOfRange
           | Some (first # rest) \<Rightarrow> Inr (\<lparr>inner = inner1, options = first\<rparr>, s)))"

text \<open>
  The body of the loop of \<^verbatim>\<open>RoundTrip\<close> for one entry of the configured map: an
  index expression on the request's header map, then \<^verbatim>\<open>Set\<close> when it finds nothing.
\<close>

definition add_missing :: "string \<Rightarrow> string \<Rightarrow> Request \<Rightarrow> panic + Request" where
  "add_missing header val r =
     (case Header r of
        None \<Rightarrow> Inl NilMapAssignment
      | Some h \<Rightarrow>
          (case h header of
             Some present \<Rightarrow> Inr r
           | None \<Rightarrow> Inr (r\<lparr>Header := Some (Header_Set h header val)\<rparr>)))"

text \<open>
  The \<^verbatim>\<open>range\<close> loop. Go leaves the order in which a map is ranged over open, so the
  order is an argument: the keys as the runtime yields them, each with the value the
  map holds for it.
\<close>

fun range_Headers :: "(string \<rightharpoonup> string) \<Rightarrow> string list \<Rightarrow> Request \<Rightarrow> panic + Request" where
  "range_Headers m [] r = Inr r"
| "range_Headers m (header # rest) r =
     (case m header of
        None \<Rightarrow> range_Headers m rest r
      | Some val \<Rightarrow>
          (case add_missing header val r of
             Inl p \<Rightarrow> Inl p
           | Inr r' \<Rightarrow> range_Headers m rest r'))"

text \<open>An order the runtime can choose: every key of the map, once.\<close>

definition range_order :: "(string \<rightharpoonup> string) \<Rightarrow> string list \<Rightarrow> bool" where
  "range_order m ks = (distinct ks \<and> set ks = dom m)"

text \<open>The header-merge step: the first statement of \<^verbatim>\<open>RoundTrip\<close>.\<close>

definition mergeHeaders :: "store \<Rightarrow> Options \<Rightarrow> string list \<Rightarrow> Request \<Rightarrow> panic + Request" where
  "mergeHeaders s opt ks r =
     (if AddMissingHeaders opt then range_Headers (map_read s (Headers opt)) ks r
      else Inr r)"

text \<open>
  The call \<^verbatim>\<open>rt.RoundTrip(r)\<close> through the interface. \<open>T\<close> is the standard
  library's \<^verbatim>\<open>(*http.Transport).RoundTrip\<close> on a transport that is not nil. A call
  on the nil interface panics, and so does the library's method on a nil
  \<^verbatim>\<open>*http.Transport\<close>, which reads the fields of its receiver.
\<close>

definition RoundTripper_RoundTrip ::
  "(Transport \<Rightarrow> Request \<Rightarrow> 'resp option \<times> 'err option) \<Rightarrow>
     ('resp, 'err) RoundTripper \<Rightarrow> Request \<Rightarrow> panic + ('resp option \<times> 'err option)" where
  "RoundTripper_RoundTrip T rt r =
     (case rt of
        Nil_RoundTripper \<Rightarrow> Inl NilPointerDereference
      | Transport_ptr None \<Rightarrow> Inl NilPointerDereference
      | Transport_ptr (Some t) \<Rightarrow> Inr (T t r)
      | Other_RoundTripper f \<Rightarrow> Inr (f r))"

text \<open>
  \<^verbatim>\<open>RoundTrip\<close>: the merge, then the request goes to a new transport when there is
  no inner round tripper, and to the inner one otherwise. A panic of the merge ends
  the call. Otherwise the result is the request as the merge left it (the header map
  is changed in place, whatever happens next), with the outcome of the call that
  follows: the response and the error that the callee returned, or its panic.
\<close>

definition RoundTrip ::
  "(Transport \<Rightarrow> Request \<Rightarrow> 'resp option \<times> 'err option) \<Rightarrow> store \<Rightarrow>
     ('resp, 'err) cloudFlareRoundTripper \<Rightarrow> string list \<Rightarrow> Request \<Rightarrow>
     panic + (Request \<times> (panic + ('resp option \<times> 'err option)))" where
  "RoundTrip T s ug ks r =
     (case mergeHeaders s (options ug) ks r of
        Inl p \<Rightarrow> Inl p
      | Inr r' \<Rightarrow>
          Inr (r',
            case inner ug of
              Nil_RoundTripper \<Rightarrow>
                Inr (T (Transport_zero\<lparr>TLSClientConfig := Some getCloudFlareTLSConfiguration\<rparr>) r')
            | _ \<Rightarrow> RoundTripper_RoundTrip T (inner ug) r'))"

section \<open>The loop on the header map alone\<close>

text \<open>
  What the loop does to a header map that is not nil, as a function on maps; the
  proofs below work on it.
\<close>

fun merged :: "(string \<rightharpoonup> string) \<Rightarrow> string list \<Rightarrow> Header \<Rightarrow> Header" where
  "merged m [] h = h"
| "merged m (k # ks) h =
     (case m k of
        None \<Rightarrow> merged m ks h
      | Some v \<Rightarrow>
          (case h k of
             Some present \<Rightarrow> merged m ks h
           | None \<Rightarrow> merged m ks (Header_Set h k v)))"

text \<open>
  The relation between a map \<open>a\<close> that went through the loop once already and the
  map \<open>b\<close> it started from, while both go through the loop over the keys \<open>ks\<close>: where
  they still differ, a key that is yet to come settles the entry in both.
\<close>

definition settles :: "(string \<rightharpoonup> string) \<Rightarrow> string list \<Rightarrow> Header \<Rightarrow> Header \<Rightarrow> bool" where
  "settles m ks a b =
     (dom b \<subseteq> dom a \<and>
      (\<forall>k. CanonicalMIMEHeaderKey k \<noteq> k \<longrightarrow> (k \<in> dom a) = (k \<in> dom b)) \<and>
      (\<forall>x. a x \<noteq> b x \<longrightarrow>
         (\<exists>k \<in> set ks. m k \<noteq> None \<and> CanonicalMIMEHeaderKey k = x \<and> k \<notin> dom a) \<or>
         (x \<in> set ks \<and> CanonicalMIMEHeaderKey x = x \<and> x \<notin> dom b \<and>
            (\<exists>v. m x = Some v \<and> a x = Some [v]))))"

section \<open>Canonical header names\<close>

lemma of_char_to_upper: "is_lower c \<Longrightarrow> (of_char (to_upper c) :: nat) = of_char c - 32"
proof -
  assume "is_lower c"
  have "(of_char c :: nat) - 32 < 256"
    using nat_of_char_less_256 [of c] by arith
  then show ?thesis
    by (simp add: to_upper_def)
qed

lemma of_char_to_lower: "is_upper c \<Longrightarrow> (of_char (to_lower c) :: nat) = of_char c + 32"
proof -
  assume "is_upper c"
  then have "(of_char c :: nat) + 32 < 256"
    by (simp add: is_upper_def)
  then show ?thesis
    by (simp add: to_lower_def)
qed

lemma to_upper_props: "is_lower c \<Longrightarrow> \<not> is_lower (to_upper c) \<and> is_upper (to_upper c) \<and> to_upper c \<noteq> CHR ''-''"
  using of_char_to_upper[of c] by (auto simp: is_lower_def is_upper_def)

lemma to_lower_props: "is_upper c \<Longrightarrow> \<not> is_upper (to_lower c) \<and> is_lower (to_lower c) \<and> to_lower c \<noteq> CHR ''-''"
  using of_char_to_lower[of c] by (auto simp: is_lower_def is_upper_def)

lemma canonical_bytes_idem: "canonical_bytes u (canonical_bytes u s) = canonical_bytes u s"
proof (induction s arbitrary: u)
  case Nil
  show ?case by simp
next
  case (Cons c cs)
  show ?case
    using Cons.IH to_upper_props[of c] to_lower_props[of c]
    by (simp add: Let_def)
qed

lemma valid_letter: "is_lower c \<or> is_upper c \<Longrightarrow> validHeaderFieldByte c"
  by (auto simp: validHeaderFieldByte_def)

lemma valid_canonical_bytes: "list_all validHeaderFieldByte s \<Longrightarrow> list_all validHeaderFieldByte (canonical_bytes u s)"
proof (induction s arbitrary: u)
  case Nil
  show ?case by simp
next
  case (Cons c cs)
  then show ?case
    using to_upper_props[of c] to_lower_props[of c]
    by (simp add: Let_def valid_letter)
qed

lemma Canonical_idem: "CanonicalMIMEHeaderKey (CanonicalMIMEHeaderKey s) = CanonicalMIMEHeaderKey s"
  by (simp add: CanonicalMIMEHeaderKey_def valid_canonical_bytes canonical_bytes_idem)

section \<open>The loop, step by step\<close>

lemma range_Headers_Some:
  "Header r = Some h \<Longrightarrow> range_Headers m ks r = Inr (r\<lparr>Header := Some (merged m ks h)\<rparr>)"
proof (induction ks arbitrary: r h)
  case Nil
  then show ?case by simp
next
  case (Cons k ks)
  show ?case
  proof (cases "m k")
    case None
    then show ?thesis using Cons by simp
  next
    case (Some v)
    show ?thesis
    proof (cases "h k")
      case None
      have "Header (r\<lparr>Header := Some (Header_Set h k v)\<rparr>) = Some (Header_Set h k v)"
        by simp
      from Cons.IH [OF this] show ?thesis
        using Some None Cons.prems by (simp add: add_missing_def)
    next
      case (Some present)
      then show ?thesis
        using \<open>m k = Some v\<close> Cons by (simp add: add_missing_def)
    qed
  qed
qed

lemma range_Headers_None:
  "Header r = None \<Longrightarrow>
     range_Headers m ks r = (if \<exists>k \<in> set ks. m k \<noteq> None then Inl NilMapAssignment else Inr r)"
  by (induction ks) (auto simp: add_missing_def split: option.splits)

lemma merged_value:
  "merged m ks h x \<noteq> h x \<Longrightarrow>
     \<exists>k \<in> set ks. \<exists>v. m k = Some v \<and> k \<notin> dom h \<and> CanonicalMIMEHeaderKey k = x \<and> merged m ks h x = Some [v]"
proof (induction ks arbitrary: h)
  case Nil
  then show ?case by simp
next
  case (Cons k ks)
  show ?case
  proof (cases "m k")
    case None
    then show ?thesis using Cons by simp
  next
    case (Some v)
    show ?thesis
    proof (cases "h k")
      case (Some present)
      then show ?thesis using \<open>m k = Some v\<close> Cons by simp
    next
      case None
      let ?h = "Header_Set h k v"
      have eq: "merged m (k # ks) h = merged m ks ?h"
        using Some None by simp
      show ?thesis
      proof (cases "merged m ks ?h x = ?h x")
        case True
        then have "?h x \<noteq> h x" using Cons.prems eq by simp
        then have "CanonicalMIMEHeaderKey k = x" "?h x = Some [v]"
          by (auto simp: Header_Set_def split: if_splits)
        then show ?thesis using True eq Some None by auto
      next
        case False
        from Cons.IH [OF this] obtain k' v' where
          "k' \<in> set ks" "m k' = Some v'" "k' \<notin> dom ?h" "CanonicalMIMEHeaderKey k' = x"
          "merged m ks ?h x = Some [v']" by blast
        moreover have "k' \<notin> dom h" using \<open>k' \<notin> dom ?h\<close> by (auto simp: Header_Set_def split: if_splits)
        ultimately show ?thesis using eq by auto
      qed
    qed
  qed
qed

lemma merged_dom_mono: "dom h \<subseteq> dom (merged m ks h)"
proof (induction ks arbitrary: h)
  case Nil
  show ?case by simp
next
  case (Cons k ks)
  show ?case
  proof (cases "m k")
    case None
    then show ?thesis using Cons [of h] by simp
  next
    case (Some v)
    show ?thesis
    proof (cases "h k")
      case (Some present)
      then show ?thesis using \<open>m k = Some v\<close> Cons [of h] by simp
    next
      case None
      have "dom h \<subseteq> dom (Header_Set h k v)"
        by (auto simp: Header_Set_def)
      also have "\<dots> \<subseteq> dom (merged m ks (Header_Set h k v))"
        by (rule Cons)
      finally show ?thesis using Some None by simp
    qed
  qed
qed

lemma merged_dom: "x \<in> dom (merged m ks h) \<Longrightarrow> x \<notin> dom h \<Longrightarrow> CanonicalMIMEHeaderKey x = x"
proof -
  assume "x \<in> dom (merged m ks h)" "x \<notin> dom h"
  then have "merged m ks h x \<noteq> h x" by auto
  from merged_value [OF this] show ?thesis
    using Canonical_idem by auto
qed

lemma merged_canonical:
  assumes "\<forall>k \<in> set ks. m k \<noteq> None \<longrightarrow> CanonicalMIMEHeaderKey k = k"
  shows "merged m ks h x =
     (case h x of Some vs \<Rightarrow> Some vs
      | None \<Rightarrow> if x \<in> set ks then map_option (\<lambda>v. [v]) (m x) else None)"
  using assms
proof (induction ks arbitrary: h)
  case Nil
  show ?case by (simp split: option.splits)
next
  case (Cons k ks)
  then have IH: "merged m ks h' x =
     (case h' x of Some vs \<Rightarrow> Some vs
      | None \<Rightarrow> if x \<in> set ks then map_option (\<lambda>v. [v]) (m x) else None)" for h'
    by simp
  show ?case
  proof (cases "m k")
    case None
    then show ?thesis using IH [of h] by (auto split: option.splits)
  next
    case (Some v)
    then have ck: "CanonicalMIMEHeaderKey k = k" using Cons.prems by simp
    show ?thesis
    proof (cases "h k")
      case None
      then show ?thesis
        using Some IH [of "Header_Set h k v"] ck
        by (auto simp: Header_Set_def split: option.splits)
    next
      case (Some present)
      then show ?thesis
        using \<open>m k = Some v\<close> IH [of h] by (auto split: option.splits)
    qed
  qed
qed

lemma mergeHeaders_Some:
  "Header r = Some h \<Longrightarrow> AddMissingHeaders opt \<Longrightarrow>
     mergeHeaders s opt ks r = Inr (r\<lparr>Header := Some (merged (map_read s (Headers opt)) ks h)\<rparr>)"
  by (simp add: mergeHeaders_def range_Headers_Some)

lemma mergeHeaders_returns:
  "Header r \<noteq> None \<Longrightarrow> \<exists>r'. mergeHeaders s opt ks r = Inr r'"
  by (cases "AddMissingHeaders opt") (auto simp: mergeHeaders_def range_Headers_Some)

lemma RoundTrip_after_merge:
  "mergeHeaders s (options ug) ks r = Inr r' \<Longrightarrow>
     RoundTrip T s ug ks r =
       Inr (r',
         case inner ug of
           Nil_RoundTripper \<Rightarrow>
             Inr (T (Transport_zero\<lparr>TLSClientConfig := Some getCloudFlareTLSConfiguration\<rparr>) r')
         | Transport_ptr None \<Rightarrow> Inl NilPointerDereference
         | Transport_ptr (Some t) \<Rightarrow> Inr (T t r')
         | Other_RoundTripper f \<Rightarrow> Inr (f r'))"
  by (simp add: RoundTrip_def RoundTripper_RoundTrip_def split: RoundTripper.splits option.splits)

text \<open>
  With configured names in canonical form the merge only adds: every configured name
  is a key afterwards, and every entry the request had is still there.
\<close>

lemma mergeHeaders_canonical_names:
  assumes "AddMissingHeaders opt"
    and "range_order (map_read s (Headers opt)) ks"
    and "list_all (\<lambda>k. CanonicalMIMEHeaderKey k = k) ks"
    and "Header r = Some h"
  shows "\<exists>h'. mergeHeaders s opt ks r = Inr (r\<lparr>Header := Some h'\<rparr>) \<and>
     dom (map_read s (Headers opt)) \<subseteq> dom h' \<and>
     (\<forall>x vs. h x = Some vs \<longrightarrow> h' x = Some vs)"
proof -
  let ?m = "map_read s (Headers opt)"
  have c: "\<forall>k \<in> set ks. ?m k \<noteq> None \<longrightarrow> CanonicalMIMEHeaderKey k = k"
    using assms(3) by (simp add: list_all_iff)
  have ks: "set ks = dom ?m"
    using assms(2) by (simp add: range_order_def)
  have "x \<in> dom (merged ?m ks h)" if "x \<in> dom ?m" for x
    using merged_canonical [OF c, of h x] that ks by (auto split: option.splits)
  moreover have "merged ?m ks h x = Some vs" if "h x = Some vs" for x vs
    using merged_canonical [OF c, of h x] that by simp
  ultimately show ?thesis
    using mergeHeaders_Some [OF assms(4) assms(1), of s ks] by blast
qed

section \<open>Going through the loop a second time\<close>

lemma settlesI:
  assumes "dom b \<subseteq> dom a"
    and "\<And>k. CanonicalMIMEHeaderKey k \<noteq> k \<Longrightarrow> (k \<in> dom a) = (k \<in> dom b)"
    and "\<And>x. a x \<noteq> b x \<Longrightarrow>
         (\<exists>k \<in> set ks. m k \<noteq> None \<and> CanonicalMIMEHeaderKey k = x \<and> k \<notin> dom a) \<or>
         (x \<in> set ks \<and> CanonicalMIMEHeaderKey x = x \<and> x \<notin> dom b \<and>
            (\<exists>v. m x = Some v \<and> a x = Some [v]))"
  shows "settles m ks a b"
  unfolding settles_def using assms by blast

lemma settlesD:
  assumes "settles m ks a b"
  shows "dom b \<subseteq> dom a"
    and "CanonicalMIMEHeaderKey k \<noteq> k \<Longrightarrow> (k \<in> dom a) = (k \<in> dom b)"
    and "a x \<noteq> b x \<Longrightarrow>
         (\<exists>k \<in> set ks. m k \<noteq> None \<and> CanonicalMIMEHeaderKey k = x \<and> k \<notin> dom a) \<or>
         (x \<in> set ks \<and> CanonicalMIMEHeaderKey x = x \<and> x \<notin> dom b \<and>
            (\<exists>v. m x = Some v \<and> a x = Some [v]))"
  using assms unfolding settles_def by blast+

lemma settles_skip:
  assumes S: "settles m (k # ks) a b" and k: "m k = None \<or> k \<in> dom b"
  shows "settles m ks a b"
proof (rule settlesI)
  show "dom b \<subseteq> dom a" by (rule settlesD(1) [OF S])
next
  fix k' assume "CanonicalMIMEHeaderKey k' \<noteq> k'"
  then show "(k' \<in> dom a) = (k' \<in> dom b)" by (rule settlesD(2) [OF S])
next
  fix x assume "a x \<noteq> b x"
  from settlesD(3) [OF S this] settlesD(1) [OF S] k
  show "(\<exists>k \<in> set ks. m k \<noteq> None \<and> CanonicalMIMEHeaderKey k = x \<and> k \<notin> dom a) \<or>
         (x \<in> set ks \<and> CanonicalMIMEHeaderKey x = x \<and> x \<notin> dom b \<and>
            (\<exists>v. m x = Some v \<and> a x = Some [v]))"
    by (elim disjE bexE conjE exE) (auto simp: subset_iff)
qed

lemma settles_both:
  assumes S: "settles m (k # ks) a b" and k: "m k = Some v" "k \<notin> dom a"
  shows "settles m ks (Header_Set a k v) (Header_Set b k v)"
proof (rule settlesI)
  show "dom (Header_Set b k v) \<subseteq> dom (Header_Set a k v)"
    using settlesD(1) [OF S] by (auto simp: Header_Set_def)
next
  fix k' assume c: "CanonicalMIMEHeaderKey k' \<noteq> k'"
  then have "k' \<noteq> CanonicalMIMEHeaderKey k" using Canonical_idem [of k] by auto
  then show "(k' \<in> dom (Header_Set a k v)) = (k' \<in> dom (Header_Set b k v))"
    using settlesD(2) [OF S c] by (simp add: Header_Set_def)
next
  fix x assume d: "Header_Set a k v x \<noteq> Header_Set b k v x"
  then have x: "x \<noteq> CanonicalMIMEHeaderKey k" and ab: "a x \<noteq> b x"
    by (auto simp: Header_Set_def split: if_splits)
  from settlesD(3) [OF S ab]
  show "(\<exists>k' \<in> set ks. m k' \<noteq> None \<and> CanonicalMIMEHeaderKey k' = x \<and> k' \<notin> dom (Header_Set a k v)) \<or>
         (x \<in> set ks \<and> CanonicalMIMEHeaderKey x = x \<and> x \<notin> dom (Header_Set b k v) \<and>
            (\<exists>v'. m x = Some v' \<and> Header_Set a k v x = Some [v']))"
  proof
    assume "\<exists>k' \<in> set (k # ks). m k' \<noteq> None \<and> CanonicalMIMEHeaderKey k' = x \<and> k' \<notin> dom a"
    then obtain k' where k': "k' \<in> set (k # ks)" "m k' \<noteq> None" "CanonicalMIMEHeaderKey k' = x" "k' \<notin> dom a"
      by blast
    have "k' \<noteq> k" using k' x by auto
    moreover have "k' \<noteq> CanonicalMIMEHeaderKey k"
      using k'(3) x Canonical_idem [of k] by auto
    ultimately have "k' \<in> set ks" "k' \<notin> dom (Header_Set a k v)"
      using k' by (auto simp: Header_Set_def)
    then show ?thesis using k' by blast
  next
    assume r: "x \<in> set (k # ks) \<and> CanonicalMIMEHeaderKey x = x \<and> x \<notin> dom b \<and>
            (\<exists>v. m x = Some v \<and> a x = Some [v])"
    then have "x \<noteq> k" using x by auto
    then show ?thesis using r x by (auto simp: Header_Set_def)
  qed
qed

lemma settles_late:
  assumes S: "settles m (k # ks) a b" and k: "m k = Some v" "k \<in> dom a" "k \<notin> dom b"
  shows "settles m ks a (Header_Set b k v)"
proof -
  have ck: "CanonicalMIMEHeaderKey k = k"
    using settlesD(2) [OF S, of k] k by auto
  have hb: "Header_Set b k v = b(k \<mapsto> [v])"
    by (simp add: Header_Set_def ck)
  show ?thesis
  proof (rule settlesI)
    show "dom (Header_Set b k v) \<subseteq> dom a"
      using settlesD(1) [OF S] k by (auto simp: hb)
  next
    fix k' assume c: "CanonicalMIMEHeaderKey k' \<noteq> k'"
    then have "k' \<noteq> k" using ck by auto
    then show "(k' \<in> dom a) = (k' \<in> dom (Header_Set b k v))"
      using settlesD(2) [OF S c] by (simp add: hb)
  next
    fix x assume d: "a x \<noteq> Header_Set b k v x"
    have ab: "a x \<noteq> b x"
    proof (cases "x = k")
      case True
      then show ?thesis using k by auto
    next
      case False
      then show ?thesis using d by (simp add: hb)
    qed
    from settlesD(3) [OF S ab]
    show "(\<exists>k' \<in> set ks. m k' \<noteq> None \<and> CanonicalMIMEHeaderKey k' = x \<and> k' \<notin> dom a) \<or>
           (x \<in> set ks \<and> CanonicalMIMEHeaderKey x = x \<and> x \<notin> dom (Header_Set b k v) \<and>
              (\<exists>v'. m x = Some v' \<and> a x = Some [v']))"
    proof
      assume "\<exists>k' \<in> set (k # ks). m k' \<noteq> None \<and> CanonicalMIMEHeaderKey k' = x \<and> k' \<notin> dom a"
      then obtain k' where k': "k' \<in> set (k # ks)" "m k' \<noteq> None" "CanonicalMIMEHeaderKey k' = x" "k' \<notin> dom a"
        by blast
      then have "k' \<noteq> k" using k by auto
      then show ?thesis using k' by auto
    next
      assume r: "x \<in> set (k # ks) \<and> CanonicalMIMEHeaderKey x = x \<and> x \<notin> dom b \<and>
              (\<exists>v. m x = Some v \<and> a x = Some [v])"
      have "x \<noteq> k"
      proof
        assume "x = k"
        then have "a x = Some [v]" using r k by auto
        then show False using d \<open>x = k\<close> by (simp add: hb)
      qed
      then show ?thesis using r by (auto simp: hb)
    qed
  qed
qed

lemma settles_merged:
  "settles m ks a b \<Longrightarrow> merged m ks a = merged m ks b"
proof (induction ks arbitrary: a b)
  case Nil
  have "a x = b x" for x
    using settlesD(3) [OF Nil, of x] by auto
  then show ?case by auto
next
  case (Cons k ks)
  note S = Cons.prems
  show ?case
  proof (cases "m k")
    case None
    then show ?thesis using Cons.IH [OF settles_skip [OF S]] by simp
  next
    case (Some v)
    show ?thesis
    proof (cases "k \<in> dom b")
      case True
      then have "k \<in> dom a" using settlesD(1) [OF S] by auto
      then show ?thesis
        using Cons.IH [OF settles_skip [OF S]] True Some by auto
    next
      case False
      show ?thesis
      proof (cases "k \<in> dom a")
        case True
        from Cons.IH [OF settles_late [OF S Some True False]]
        show ?thesis using True False Some by auto
      next
        case na: False
        from Cons.IH [OF settles_both [OF S Some na]]
        show ?thesis using na False Some by auto
      qed
    qed
  qed
qed

lemma settles_init:
  assumes "set ks1 \<subseteq> set ks2"
  shows "settles m ks2 (merged m ks1 h) h"
proof (rule settlesI)
  show "dom h \<subseteq> dom (merged m ks1 h)" by (rule merged_dom_mono)
next
  fix k assume "CanonicalMIMEHeaderKey k \<noteq> k"
  then show "(k \<in> dom (merged m ks1 h)) = (k \<in> dom h)"
    using merged_dom [of k m ks1 h] merged_dom_mono [of h m ks1] by auto
next
  fix x assume "merged m ks1 h x \<noteq> h x"
  from merged_value [OF this] obtain k v where
    k: "k \<in> set ks1" "m k = Some v" "k \<notin> dom h" "CanonicalMIMEHeaderKey k = x"
       "merged m ks1 h x = Some [v]" by blast
  show "(\<exists>k \<in> set ks2. m k \<noteq> None \<and> CanonicalMIMEHeaderKey k = x \<and> k \<notin> dom (merged m ks1 h)) \<or>
         (x \<in> set ks2 \<and> CanonicalMIMEHeaderKey x = x \<and> x \<notin> dom h \<and>
            (\<exists>v. m x = Some v \<and> merged m ks1 h x = Some [v]))"
  proof (cases "k = x")
    case True
    then show ?thesis using k assms by auto
  next
    case False
    then have "k \<notin> dom (merged m ks1 h)"
      using merged_dom [of k m ks1 h] k by auto
    then show ?thesis using k assms by auto
  qed
qed

lemma merged_twice: "set ks1 \<subseteq> set ks2 \<Longrightarrow> merged m ks2 (merged m ks1 h) = merged m ks2 h"
  by (rule settles_merged [OF settles_init])

section \<open>The claims\<close>

text \<open>
  C1, as the spec states it, fails. The check is the index expression
  \<^verbatim>\<open>r.Header[header]\<close>, an exact lookup of the configured name. A request that
  carries \<^verbatim>\<open>accept: foo\<close> under the lower-case key, with \<^verbatim>\<open>Accept\<close> configured, has
  no entry under \<^verbatim>\<open>Accept\<close>, so the configured \<^verbatim>\<open>Accept\<close> is set beside it, although
  the two names have the same canonical form.
\<close>

theorem presence_check_case_insensitive_counterexample:
  "CanonicalMIMEHeaderKey ''accept'' = CanonicalMIMEHeaderKey ''Accept'' \<and>
   RoundTrip (\<lambda>t r. (None :: unit option, None :: unit option)) [[''Accept'' \<mapsto> ''configured'']]
     \<lparr>inner = Other_RoundTripper (\<lambda>r. (None, None)),
        options = \<lparr>AddMissingHeaders = True, Headers = Some 0\<rparr>\<rparr>
     [''Accept''] \<lparr>Method = ''GET'', URL = ''/'', Header = Some [''accept'' \<mapsto> [''foo'']]\<rparr>
   = Inr (\<lparr>Method = ''GET'', URL = ''/'',
            Header = Some [''accept'' \<mapsto> [''foo''], ''Accept'' \<mapsto> [''configured'']]\<rparr>, Inr (None, None)) \<and>
   [''accept'' \<mapsto> [''foo''], ''Accept'' \<mapsto> [''configured'']] ''Accept'' = Some [''configured'']"
proof -
  have c: "CanonicalMIMEHeaderKey ''accept'' = ''Accept''" "CanonicalMIMEHeaderKey ''Accept'' = ''Accept''"
    by code_simp+
  show ?thesis
    by (simp add: RoundTrip_def mergeHeaders_def map_read_def add_missing_def Header_Set_def
        RoundTripper_RoundTrip_def c)
qed

text \<open>
  C1, amended. For every request whose header map is initialised and every Options
  value with \<^verbatim>\<open>AddMissingHeaders = true\<close> whose configured names are in canonical
  form, the check whether a configured header is present is an exact, case-sensitive
  lookup of its name in the request's header map: a configured header whose name is a
  key of that map keeps the values it has, and a configured header whose name is not a
  key is set to the configured value, whether or not the map has an entry whose name
  differs from it in letter case only.
\<close>

theorem presence_check_is_exact_lookup:
  assumes "AddMissingHeaders (options ug)"
    and "range_order (map_read s (Headers (options ug))) ks"
    and "list_all (\<lambda>k. CanonicalMIMEHeaderKey k = k) ks"
    and "Header r = Some h"
  shows "\<exists>h' out. RoundTrip T s ug ks r = Inr (r\<lparr>Header := Some h'\<rparr>, out) \<and>
     (\<forall>name v. map_read s (Headers (options ug)) name = Some v \<longrightarrow>
        h' name = (case h name of Some vs \<Rightarrow> Some vs | None \<Rightarrow> Some [v]))"
proof -
  let ?m = "map_read s (Headers (options ug))"
  let ?h = "merged ?m ks h"
  have m: "mergeHeaders s (options ug) ks r = Inr (r\<lparr>Header := Some ?h\<rparr>)"
    by (rule mergeHeaders_Some [OF assms(4) assms(1)])
  have out: "\<exists>out. RoundTrip T s ug ks r = Inr (r\<lparr>Header := Some ?h\<rparr>, out)"
    using RoundTrip_after_merge [OF m, of T] by blast
  have c: "\<forall>k \<in> set ks. ?m k \<noteq> None \<longrightarrow> CanonicalMIMEHeaderKey k = k"
    using assms(3) by (simp add: list_all_iff)
  have "?h name = (case h name of Some vs \<Rightarrow> Some vs | None \<Rightarrow> Some [v])"
    if "?m name = Some v" for name v
  proof -
    have "name \<in> set ks" using that assms(2) by (auto simp: range_order_def)
    then show ?thesis
      using merged_canonical [OF c, of h name] that by (simp split: option.splits)
  qed
  then show ?thesis using out by blast
qed

theorem presence_check_is_exact_lookup_witness:
  "AddMissingHeaders (options \<lparr>inner = Nil_RoundTripper :: (unit, unit) RoundTripper, options = \<lparr>AddMissingHeaders = True, Headers = Some 0\<rparr>\<rparr>) \<and>
   range_order (map_read [[''Accept'' \<mapsto> ''configured'']]
      (Headers (options \<lparr>inner = Nil_RoundTripper :: (unit, unit) RoundTripper, options = \<lparr>AddMissingHeaders = True, Headers = Some 0\<rparr>\<rparr>))) [''Accept''] \<and>
   list_all (\<lambda>k. CanonicalMIMEHeaderKey k = k) [''Accept''] \<and>
   Header \<lparr>Method = ''GET'', URL = ''/'', Header = Some [''accept'' \<mapsto> [''foo'']]\<rparr> = Some [''accept'' \<mapsto> [''foo'']] \<and>
   (\<exists>h' out. RoundTrip (\<lambda>t r. (None :: unit option, None :: unit option)) [[''Accept'' \<mapsto> ''configured'']]
        \<lparr>inner = Nil_RoundTripper :: (unit, unit) RoundTripper, options = \<lparr>AddMissingHeaders = True, Headers = Some 0\<rparr>\<rparr> [''Accept'']
        \<lparr>Method = ''GET'', URL = ''/'', Header = Some [''accept'' \<mapsto> [''foo'']]\<rparr> =
        Inr (\<lparr>Method = ''GET'', URL = ''/'', Header = Some [''accept'' \<mapsto> [''foo'']]\<rparr>\<lparr>Header := Some h'\<rparr>, out) \<and>
      (\<forall>name v. map_read [[''Accept'' \<mapsto> ''configured'']]
           (Headers (options \<lparr>inner = Nil_RoundTripper :: (unit, unit) RoundTripper, options = \<lparr>AddMissingHeaders = True, Headers = Some 0\<rparr>\<rparr>)) name = Some v \<longrightarrow>
         h' name = (case [''accept'' \<mapsto> [''foo'']] name of Some vs \<Rightarrow> Some vs | None \<Rightarrow> Some [v])))"
proof -
  have 1: "AddMissingHeaders (options \<lparr>inner = Nil_RoundTripper :: (unit, unit) RoundTripper, options = \<lparr>AddMissingHeaders = True, Headers = Some 0\<rparr>\<rparr>)"
    by simp
  have 2: "range_order (map_read [[''Accept'' \<mapsto> ''configured'']]
      (Headers (options \<lparr>inner = Nil_RoundTripper :: (unit, unit) RoundTripper, options = \<lparr>AddMissingHeaders = True, Headers = Some 0\<rparr>\<rparr>))) [''Accept'']"
    by (simp add: range_order_def map_read_def)
  have "CanonicalMIMEHeaderKey ''Accept'' = ''Accept''"
    by code_simp
  then have 3: "list_all (\<lambda>k. CanonicalMIMEHeaderKey k = k) [''Accept'']"
    by simp
  have 4: "Header \<lparr>Method = ''GET'', URL = ''/'', Header = Some [''accept'' \<mapsto> [''foo'']]\<rparr> = Some [''accept'' \<mapsto> [''foo'']]"
    by simp
  note t = presence_check_is_exact_lookup [OF 1 2 3 4]
  show ?thesis
    by (intro conjI) (rule 1 2 3 4 t)+
qed

text \<open>
  C2, as the spec states it, fails. \<^verbatim>\<open>AddCloudFlareByPass\<close> assigns the whole
  \<^verbatim>\<open>TLSClientConfig\<close> slot. A transport configured with a server name, with
  \<^verbatim>\<open>InsecureSkipVerify\<close> and with TLS 1.2 as its minimum version comes back with a
  configuration in which all three are at their zero values, and not with its own
  configuration in which only the curve preferences changed.
\<close>

theorem wrap_keeps_TLS_settings_counterexample:
  "AddCloudFlareByPass
     (Transport_ptr (Some (Transport_zero\<lparr>TLSClientConfig :=
        Some (Config_zero\<lparr>ServerName := ''example.org'', InsecureSkipVerify := True, MinVersion := 771\<rparr>)\<rparr>))
      :: (unit, unit) RoundTripper)
     (Some [\<lparr>AddMissingHeaders = False, Headers = None\<rparr>]) []
   = Inr (\<lparr>inner = Transport_ptr (Some (Transport_zero\<lparr>TLSClientConfig :=
              Some \<lparr>ServerName = [], InsecureSkipVerify = False, NextProtos = [], CipherSuites = [],
                    MinVersion = 0, MaxVersion = 0,
                    CurvePreferences = [CurveP256, CurveP384, CurveP521, X25519]\<rparr>\<rparr>)),
           options = \<lparr>AddMissingHeaders = False, Headers = None\<rparr>\<rparr>, []) \<and>
   \<lparr>ServerName = [], InsecureSkipVerify = False, NextProtos = [], CipherSuites = [],
     MinVersion = 0, MaxVersion = 0, CurvePreferences = [CurveP256, CurveP384, CurveP521, X25519]\<rparr> \<noteq>
   Config_zero\<lparr>ServerName := ''example.org'', InsecureSkipVerify := True, MinVersion := 771\<rparr>
     \<lparr>CurvePreferences := [CurveP256, CurveP384, CurveP521, X25519]\<rparr>"
  by (simp add: AddCloudFlareByPass_def getCloudFlareTLSConfiguration_def Config_zero_def)

text \<open>
  C2, amended. When \<^verbatim>\<open>AddCloudFlareByPass\<close> is given a \<^verbatim>\<open>*http.Transport\<close> that is
  not nil, with no Options or at least one, it returns a decorator around the same
  transport, whose TLS slot now holds a new configuration: the curve preferences are
  the four curves and every other TLS setting has its zero value, whatever the slot
  held before. The other fields of the transport are as they were.
\<close>

theorem wrap_replaces_TLS_configuration:
  "opts \<noteq> Some [] \<Longrightarrow>
     \<exists>ug s'. AddCloudFlareByPass (Transport_ptr (Some t)) opts s = Inr (ug, s') \<and>
       inner ug = Transport_ptr (Some (t\<lparr>TLSClientConfig :=
         Some \<lparr>ServerName = [], InsecureSkipVerify = False, NextProtos = [], CipherSuites = [],
               MinVersion = 0, MaxVersion = 0,
               CurvePreferences = [CurveP256, CurveP384, CurveP521, X25519]\<rparr>\<rparr>))"
  by (auto simp: AddCloudFlareByPass_def getCloudFlareTLSConfiguration_def Config_zero_def
      GetDefaultOptions_def map_new_def split: option.splits list.splits)

theorem wrap_replaces_TLS_configuration_witness:
  "Some [\<lparr>AddMissingHeaders = False, Headers = None\<rparr>] \<noteq> Some [] \<and>
   (\<exists>ug s'. AddCloudFlareByPass
       (Transport_ptr (Some (Transport_zero\<lparr>TLSClientConfig :=
          Some (Config_zero\<lparr>ServerName := ''example.org'', InsecureSkipVerify := True, MinVersion := 771\<rparr>)\<rparr>))
        :: (unit, unit) RoundTripper)
       (Some [\<lparr>AddMissingHeaders = False, Headers = None\<rparr>]) [] = Inr (ug, s') \<and>
     inner ug = Transport_ptr (Some (Transport_zero\<lparr>TLSClientConfig :=
          Some (Config_zero\<lparr>ServerName := ''example.org'', InsecureSkipVerify := True, MinVersion := 771\<rparr>)\<rparr>
        \<lparr>TLSClientConfig :=
         Some \<lparr>ServerName = [], InsecureSkipVerify = False, NextProtos = [], CipherSuites = [],
               MinVersion = 0, MaxVersion = 0,
               CurvePreferences = [CurveP256, CurveP384, CurveP521, X25519]\<rparr>\<rparr>)))"
proof -
  have 1: "Some [\<lparr>AddMissingHeaders = False, Headers = None\<rparr>] \<noteq> Some []"
    by simp
  note t = wrap_replaces_TLS_configuration [OF 1]
  show ?thesis
    by (intro conjI) (rule 1 t)+
qed

text \<open>
  C3 holds for configured names in canonical form (see C1) and fails otherwise: the
  presence check looks up the name as configured, while \<^verbatim>\<open>Header.Set\<close> writes under
  its canonical form. With \<^verbatim>\<open>accept\<close> configured and a request that already carries
  \<^verbatim>\<open>Accept: foo\<close>, the check finds nothing under \<^verbatim>\<open>accept\<close> and the call to
  \<^verbatim>\<open>Set\<close> replaces the value of \<^verbatim>\<open>Accept\<close>, a header that was not missing.
\<close>

theorem existing_header_overwritten:
  "RoundTrip (\<lambda>t r. (None :: unit option, None :: unit option)) [[''accept'' \<mapsto> ''configured'']]
     \<lparr>inner = Other_RoundTripper (\<lambda>r. (None, None)),
        options = \<lparr>AddMissingHeaders = True, Headers = Some 0\<rparr>\<rparr>
     [''accept''] \<lparr>Method = ''GET'', URL = ''/'', Header = Some [''Accept'' \<mapsto> [''foo'']]\<rparr>
   = Inr (\<lparr>Method = ''GET'', URL = ''/'', Header = Some [''Accept'' \<mapsto> [''configured'']]\<rparr>, Inr (None, None))"
proof -
  have c: "CanonicalMIMEHeaderKey ''accept'' = ''Accept''"
    by code_simp
  show ?thesis
    by (simp add: RoundTrip_def mergeHeaders_def map_read_def add_missing_def Header_Set_def
        RoundTripper_RoundTrip_def c)
qed

text \<open>
  C4. With \<^verbatim>\<open>AddMissingHeaders = false\<close> the merge leaves every request as it is,
  whatever the configured map holds and also when the request's header map is nil, and
  \<^verbatim>\<open>RoundTrip\<close> hands on that same request.
\<close>

theorem disabled_merge_leaves_headers:
  "\<not> AddMissingHeaders (options ug) \<Longrightarrow>
     mergeHeaders s (options ug) ks r = Inr r \<and> (\<exists>out. RoundTrip T s ug ks r = Inr (r, out))"
proof -
  assume "\<not> AddMissingHeaders (options ug)"
  then have m: "mergeHeaders s (options ug) ks r = Inr r"
    by (simp add: mergeHeaders_def)
  from RoundTrip_after_merge [OF m, of T] m show ?thesis
    by blast
qed

theorem disabled_merge_leaves_headers_witness:
  "\<not> AddMissingHeaders (options \<lparr>inner = Nil_RoundTripper :: (unit, unit) RoundTripper, options = \<lparr>AddMissingHeaders = False, Headers = Some 0\<rparr>\<rparr>) \<and>
   mergeHeaders [[''Accept'' \<mapsto> ''X'']] (options \<lparr>inner = Nil_RoundTripper :: (unit, unit) RoundTripper, options = \<lparr>AddMissingHeaders = False, Headers = Some 0\<rparr>\<rparr>)
     [''Accept''] \<lparr>Method = ''GET'', URL = ''/'', Header = None\<rparr> = Inr \<lparr>Method = ''GET'', URL = ''/'', Header = None\<rparr> \<and>
   (\<exists>out. RoundTrip (\<lambda>t r. (None :: unit option, None :: unit option)) [[''Accept'' \<mapsto> ''X'']]
      \<lparr>inner = Nil_RoundTripper :: (unit, unit) RoundTripper, options = \<lparr>AddMissingHeaders = False, Headers = Some 0\<rparr>\<rparr>
      [''Accept''] \<lparr>Method = ''GET'', URL = ''/'', Header = None\<rparr> = Inr (\<lparr>Method = ''GET'', URL = ''/'', Header = None\<rparr>, out))"
proof -
  have 1: "\<not> AddMissingHeaders (options \<lparr>inner = Nil_RoundTripper :: (unit, unit) RoundTripper, options = \<lparr>AddMissingHeaders = False, Headers = Some 0\<rparr>\<rparr>)"
    by simp
  note t = disabled_merge_leaves_headers [OF 1]
  show ?thesis
    by (intro conjI) (rule 1 t [THEN conjunct1] t [THEN conjunct2])+
qed

text \<open>
  C5 fails on the code in two calls. A call that spreads an empty slice
  (\<^verbatim>\<open>AddCloudFlareByPass(inner, []Options{}...)\<close>) passes a slice that is not nil, so
  \<^verbatim>\<open>options[0]\<close> is evaluated and panics, for every inner round tripper. A call with
  a nil \<^verbatim>\<open>*http.Transport\<close> passes the type assertion and panics on the assignment
  to the field of the nil pointer, for every Options argument.
\<close>

theorem AddCloudFlareByPass_panics:
  "AddCloudFlareByPass rt (Some []) s =
     Inl (if rt = Transport_ptr None then NilPointerDereference else IndexOutOfRange) \<and>
   AddCloudFlareByPass (Transport_ptr None) opts s = Inl NilPointerDereference"
  by (cases rt) (auto simp: AddCloudFlareByPass_def split: option.splits)

text \<open>
  C6. The configuration that \<^verbatim>\<open>getCloudFlareTLSConfiguration\<close> returns has the curve
  preferences P-256, P-384, P-521, X25519 in this order (the identifiers 23, 24, 25,
  29). It is the configuration that \<^verbatim>\<open>AddCloudFlareByPass\<close> assigns to a wrapped
  \<^verbatim>\<open>*http.Transport\<close>, and the configuration of the transport that \<^verbatim>\<open>RoundTrip\<close>
  constructs and sends the request to when the decorator has no inner round tripper.
\<close>

theorem installed_curve_preferences:
  "CurvePreferences getCloudFlareTLSConfiguration = [CurveP256, CurveP384, CurveP521, X25519] \<and>
   [CurveP256, CurveP384, CurveP521, X25519] = [23, 24, 25, 29] \<and>
   (opts \<noteq> Some [] \<longrightarrow>
      (\<exists>ug s'. AddCloudFlareByPass (Transport_ptr (Some t)) opts s = Inr (ug, s') \<and>
         inner ug = Transport_ptr (Some (t\<lparr>TLSClientConfig := Some getCloudFlareTLSConfiguration\<rparr>)))) \<and>
   (inner ug = Nil_RoundTripper \<and> Header r \<noteq> None \<longrightarrow>
      (\<exists>r'. mergeHeaders s (options ug) ks r = Inr r' \<and>
         RoundTrip T s ug ks r =
           Inr (r', Inr (T (Transport_zero\<lparr>TLSClientConfig := Some getCloudFlareTLSConfiguration\<rparr>) r'))))"
proof (intro conjI impI)
  show "CurvePreferences getCloudFlareTLSConfiguration = [CurveP256, CurveP384, CurveP521, X25519]"
    by (simp add: getCloudFlareTLSConfiguration_def)
  show "[CurveP256, CurveP384, CurveP521, X25519] = [23, 24, 25, 29]"
    by (simp add: CurveP256_def CurveP384_def CurveP521_def X25519_def)
next
  assume "opts \<noteq> Some []"
  then show "\<exists>ug s'. AddCloudFlareByPass (Transport_ptr (Some t)) opts s = Inr (ug, s') \<and>
         inner ug = Transport_ptr (Some (t\<lparr>TLSClientConfig := Some getCloudFlareTLSConfiguration\<rparr>))"
    by (auto simp: AddCloudFlareByPass_def GetDefaultOptions_def map_new_def
        split: option.splits list.splits)
next
  assume a: "inner ug = Nil_RoundTripper \<and> Header r \<noteq> None"
  then obtain r' where m: "mergeHeaders s (options ug) ks r = Inr r'"
    using mergeHeaders_returns by blast
  from RoundTrip_after_merge [OF m, of T] a m
  show "\<exists>r'. mergeHeaders s (options ug) ks r = Inr r' \<and>
         RoundTrip T s ug ks r =
           Inr (r', Inr (T (Transport_zero\<lparr>TLSClientConfig := Some getCloudFlareTLSConfiguration\<rparr>) r'))"
    by simp
qed

theorem installed_curve_preferences_witness:
  "(None :: Options list option) \<noteq> Some [] \<and>
   (\<exists>ug s'. AddCloudFlareByPass (Transport_ptr (Some Transport_zero) :: (unit, unit) RoundTripper) None [] = Inr (ug, s') \<and>
      inner ug = Transport_ptr (Some (Transport_zero\<lparr>TLSClientConfig := Some getCloudFlareTLSConfiguration\<rparr>))) \<and>
   inner \<lparr>inner = Nil_RoundTripper :: (unit, unit) RoundTripper, options = \<lparr>AddMissingHeaders = True, Headers = Some 0\<rparr>\<rparr> = Nil_RoundTripper \<and>
   Header \<lparr>Method = ''GET'', URL = ''/'', Header = Some Map.empty\<rparr> \<noteq> None \<and>
   (\<exists>r'. mergeHeaders [[''Accept'' \<mapsto> ''X'']]
        (options \<lparr>inner = Nil_RoundTripper :: (unit, unit) RoundTripper, options = \<lparr>AddMissingHeaders = True, Headers = Some 0\<rparr>\<rparr>)
        [''Accept''] \<lparr>Method = ''GET'', URL = ''/'', Header = Some Map.empty\<rparr> = Inr r' \<and>
      RoundTrip (\<lambda>t r. (None, None)) [[''Accept'' \<mapsto> ''X'']]
        \<lparr>inner = Nil_RoundTripper :: (unit, unit) RoundTripper, options = \<lparr>AddMissingHeaders = True, Headers = Some 0\<rparr>\<rparr>
        [''Accept''] \<lparr>Method = ''GET'', URL = ''/'', Header = Some Map.empty\<rparr> =
      Inr (r', Inr ((\<lambda>t r. (None, None)) (Transport_zero\<lparr>TLSClientConfig := Some getCloudFlareTLSConfiguration\<rparr>) r')))"
proof -
  have 1: "(None :: Options list option) \<noteq> Some []"
    by simp
  have 2: "inner \<lparr>inner = Nil_RoundTripper :: (unit, unit) RoundTripper, options = \<lparr>AddMissingHeaders = True, Headers = Some 0\<rparr>\<rparr> = Nil_RoundTripper"
    by simp
  have 3: "Header \<lparr>Method = ''GET'', URL = ''/'', Header = Some Map.empty\<rparr> \<noteq> None"
    by simp
  note a = installed_curve_preferences [THEN conjunct2, THEN conjunct2, THEN conjunct1, rule_format, OF 1]
  note b = installed_curve_preferences [THEN conjunct2, THEN conjunct2, THEN conjunct2, rule_format, OF conjI, OF 2 3]
  show ?thesis
    by (intro conjI) (rule 1 2 3 a b)+
qed

text \<open>
  C7. Every call of \<^verbatim>\<open>GetDefaultOptions\<close> returns \<^verbatim>\<open>AddMissingHeaders = true\<close> and a
  map with exactly the three entries \<^verbatim>\<open>Accept\<close>, \<^verbatim>\<open>Accept-Language\<close> and
  \<^verbatim>\<open>User-Agent\<close>, with the literal values of section 6 of the spec. Two successive
  calls return maps with equal contents at different addresses: an assignment to, or a
  deletion from, the map of one changes that map and leaves the other as it was.
\<close>

theorem GetDefaultOptions_fixed_and_independent:
  "(let (o1, s1) = GetDefaultOptions s; (o2, s2) = GetDefaultOptions s1 in
      AddMissingHeaders o1 \<and> AddMissingHeaders o2 \<and>
      map_read s1 (Headers o1) =
        [''Accept'' \<mapsto> ''text/html,application/xhtml+xml,application/xml;q=0.9,image/webp,image/apng,*/*;q=0.8'',
         ''Accept-Language'' \<mapsto> ''en-US,en;q=0.5'',
         ''User-Agent'' \<mapsto> ''Mozilla/5.0 (Windows NT 10.0; Win64; x64) AppleWebKit/537.36 (KHTML, like Gecko) Chrome/127.0.0.0 Safari/537.36 Edg/127.0.0.0''] \<and>
      dom (map_read s1 (Headers o1)) = {''Accept'', ''Accept-Language'', ''User-Agent''} \<and>
      map_read s2 (Headers o1) = map_read s1 (Headers o1) \<and>
      map_read s2 (Headers o2) = map_read s1 (Headers o1) \<and>
      Headers o1 \<noteq> Headers o2 \<and>
      (\<forall>k v. case map_assign s2 (Headers o1) k v of
           Inl p \<Rightarrow> False
         | Inr s3 \<Rightarrow> map_read s3 (Headers o1) = (map_read s2 (Headers o1))(k \<mapsto> v) \<and>
                     map_read s3 (Headers o2) = map_read s2 (Headers o2)) \<and>
      (\<forall>k v. case map_assign s2 (Headers o2) k v of
           Inl p \<Rightarrow> False
         | Inr s3 \<Rightarrow> map_read s3 (Headers o2) = (map_read s2 (Headers o2))(k \<mapsto> v) \<and>
                     map_read s3 (Headers o1) = map_read s2 (Headers o1)) \<and>
      (\<forall>k. map_read (map_delete s2 (Headers o1) k) (Headers o1) = (map_read s2 (Headers o1))(k := None) \<and>
           map_read (map_delete s2 (Headers o1) k) (Headers o2) = map_read s2 (Headers o2)) \<and>
      (\<forall>k. map_read (map_delete s2 (Headers o2) k) (Headers o2) = (map_read s2 (Headers o2))(k := None) \<and>
           map_read (map_delete s2 (Headers o2) k) (Headers o1) = map_read s2 (Headers o1)))"
  by (simp add: GetDefaultOptions_def map_new_def map_read_def map_assign_def map_delete_def
      default_Headers_def nth_append insert_commute)

text \<open>
  C8, as the spec states it, fails: it speaks of every request. A request whose header
  map is nil makes \<^verbatim>\<open>Header.Set\<close> panic as soon as a configured header is to be
  added, so \<^verbatim>\<open>RoundTrip\<close> returns neither the response nor the error of an inner
  round tripper that is not nil, and that round tripper is never called.
\<close>

theorem RoundTrip_nil_header_counterexample:
  "RoundTrip (\<lambda>t r. (None :: unit option, None :: string option)) [[''Accept'' \<mapsto> ''X'']]
     \<lparr>inner = Other_RoundTripper (\<lambda>r. (None, Some ''connection refused'')),
        options = \<lparr>AddMissingHeaders = True, Headers = Some 0\<rparr>\<rparr>
     [''Accept''] \<lparr>Method = ''GET'', URL = ''/'', Header = None\<rparr>
   = Inl NilMapAssignment"
  by (simp add: RoundTrip_def mergeHeaders_def map_read_def add_missing_def)

text \<open>
  C8, amended. For every request whose header map is initialised (the contract of
  \<^verbatim>\<open>http.RoundTripper\<close> requires it) the merge yields a request \<open>r'\<close>, and
  \<^verbatim>\<open>RoundTrip\<close> returns exactly the response and the error that the inner round
  tripper returns for \<open>r'\<close>: the pair \<open>f r'\<close> of an inner round tripper \<open>f\<close> of any other
  type, and the pair of the library's method on the transport \<open>t\<close> when the inner round
  tripper is a \<^verbatim>\<open>*http.Transport\<close> that is not nil. Nothing is added or changed, so
  \<^verbatim>\<open>RoundTrip\<close> returns an error exactly when the inner round tripper does, and the
  same one.
\<close>

theorem RoundTrip_returns_inner_result:
  assumes "Header r \<noteq> None"
  shows "\<exists>r'. mergeHeaders s opt ks r = Inr r' \<and>
     RoundTrip T s \<lparr>inner = Other_RoundTripper f, options = opt\<rparr> ks r = Inr (r', Inr (f r')) \<and>
     RoundTrip T s \<lparr>inner = Transport_ptr (Some t), options = opt\<rparr> ks r = Inr (r', Inr (T t r'))"
proof -
  from mergeHeaders_returns [OF assms] obtain r' where
    m: "mergeHeaders s opt ks r = Inr r'" by blast
  have "RoundTrip T s \<lparr>inner = Other_RoundTripper f, options = opt\<rparr> ks r = Inr (r', Inr (f r'))"
    using RoundTrip_after_merge [of s "\<lparr>inner = Other_RoundTripper f, options = opt\<rparr>" ks r r' T] m
    by simp
  moreover
  have "RoundTrip T s \<lparr>inner = Transport_ptr (Some t), options = opt\<rparr> ks r = Inr (r', Inr (T t r'))"
    using RoundTrip_after_merge [of s "\<lparr>inner = Transport_ptr (Some t), options = opt\<rparr>" ks r r' T] m
    by simp
  ultimately show ?thesis using m by blast
qed

theorem RoundTrip_returns_inner_result_witness:
  "Header \<lparr>Method = ''GET'', URL = ''/'', Header = Some Map.empty\<rparr> \<noteq> None \<and>
   RoundTrip (\<lambda>t r. (None :: unit option, None :: string option)) [[''Accept'' \<mapsto> ''X'']]
     \<lparr>inner = Other_RoundTripper (\<lambda>r. (None, Some ''connection refused'')),
        options = \<lparr>AddMissingHeaders = True, Headers = Some 0\<rparr>\<rparr>
     [''Accept''] \<lparr>Method = ''GET'', URL = ''/'', Header = Some Map.empty\<rparr>
   = Inr (\<lparr>Method = ''GET'', URL = ''/'', Header = Some [''Accept'' \<mapsto> [''X'']]\<rparr>,
          Inr (None, Some ''connection refused''))"
proof -
  have 1: "Header \<lparr>Method = ''GET'', URL = ''/'', Header = Some Map.empty\<rparr> \<noteq> None"
    by simp
  have c: "CanonicalMIMEHeaderKey ''Accept'' = ''Accept''"
    by code_simp
  have 2: "mergeHeaders [[''Accept'' \<mapsto> ''X'']] \<lparr>AddMissingHeaders = True, Headers = Some 0\<rparr>
      [''Accept''] \<lparr>Method = ''GET'', URL = ''/'', Header = Some Map.empty\<rparr> =
    Inr \<lparr>Method = ''GET'', URL = ''/'', Header = Some [''Accept'' \<mapsto> [''X'']]\<rparr>"
    by (simp add: mergeHeaders_def map_read_def add_missing_def Header_Set_def c)
  from RoundTrip_returns_inner_result [OF 1,
      of "[[''Accept'' \<mapsto> ''X'']]" "\<lparr>AddMissingHeaders = True, Headers = Some 0\<rparr>" "[''Accept'']"
        "\<lambda>t r. (None :: unit option, None :: string option)"
        "\<lambda>r. (None, Some ''connection refused'')"]
  obtain r' where
    m: "mergeHeaders [[''Accept'' \<mapsto> ''X'']] \<lparr>AddMissingHeaders = True, Headers = Some 0\<rparr>
      [''Accept''] \<lparr>Method = ''GET'', URL = ''/'', Header = Some Map.empty\<rparr> = Inr r'"
    and rt: "RoundTrip (\<lambda>t r. (None :: unit option, None :: string option)) [[''Accept'' \<mapsto> ''X'']]
     \<lparr>inner = Other_RoundTripper (\<lambda>r. (None, Some ''connection refused'')),
        options = \<lparr>AddMissingHeaders = True, Headers = Some 0\<rparr>\<rparr>
     [''Accept''] \<lparr>Method = ''GET'', URL = ''/'', Header = Some Map.empty\<rparr>
      = Inr (r', Inr ((\<lambda>r. (None, Some ''connection refused'')) r'))"
    by blast
  from m 2 have "r' = \<lparr>Method = ''GET'', URL = ''/'', Header = Some [''Accept'' \<mapsto> [''X'']]\<rparr>"
    by simp
  with rt 1 show ?thesis by simp
qed

text \<open>
  C9. Two nested decorators built with the same Options leave the same header
  collection as one. The outer decorator ranges over the configured map in some order
  \<open>ks1\<close>, the inner one in some order \<open>ks2\<close>, and Go fixes neither. Whatever the two
  orders are, the request comes out of the second merge exactly as it comes out of a
  single merge that ranges in the order \<open>ks2\<close>; with a nil header map, both panic
  or both leave the request alone. So the outcomes of two layers are the outcomes of
  one layer, for every request and every Options value.
\<close>

theorem merge_twice_is_merge_once:
  assumes "range_order (map_read s (Headers opt)) ks1"
    and "range_order (map_read s (Headers opt)) ks2"
  shows "(case mergeHeaders s opt ks1 r of
            Inl p \<Rightarrow> Inl p
          | Inr r1 \<Rightarrow> mergeHeaders s opt ks2 r1) = mergeHeaders s opt ks2 r"
proof (cases "AddMissingHeaders opt")
  case False
  then show ?thesis by (simp add: mergeHeaders_def)
next
  case True
  have ks: "set ks1 = set ks2"
    using assms by (simp add: range_order_def)
  show ?thesis
  proof (cases "Header r")
    case None
    then show ?thesis
      using True ks by (simp add: mergeHeaders_def range_Headers_None)
  next
    case (Some h)
    have "Header (r\<lparr>Header := Some (merged (map_read s (Headers opt)) ks1 h)\<rparr>) =
        Some (merged (map_read s (Headers opt)) ks1 h)"
      by simp
    from mergeHeaders_Some [OF this True, of s ks2] mergeHeaders_Some [OF Some True, of s]
    show ?thesis
      using ks by (simp add: merged_twice)
  qed
qed

theorem merge_twice_is_merge_once_witness:
  "range_order (map_read [[''accept'' \<mapsto> ''a'', ''ACCEPT'' \<mapsto> ''b'']] (Headers \<lparr>AddMissingHeaders = True, Headers = Some 0\<rparr>)) [''accept'', ''ACCEPT''] \<and>
   range_order (map_read [[''accept'' \<mapsto> ''a'', ''ACCEPT'' \<mapsto> ''b'']] (Headers \<lparr>AddMissingHeaders = True, Headers = Some 0\<rparr>)) [''ACCEPT'', ''accept''] \<and>
   (case mergeHeaders [[''accept'' \<mapsto> ''a'', ''ACCEPT'' \<mapsto> ''b'']] \<lparr>AddMissingHeaders = True, Headers = Some 0\<rparr> [''accept'', ''ACCEPT'']
           \<lparr>Method = ''GET'', URL = ''/'', Header = Some Map.empty\<rparr> of
      Inl p \<Rightarrow> Inl p
    | Inr r1 \<Rightarrow> mergeHeaders [[''accept'' \<mapsto> ''a'', ''ACCEPT'' \<mapsto> ''b'']] \<lparr>AddMissingHeaders = True, Headers = Some 0\<rparr> [''ACCEPT'', ''accept''] r1) =
   mergeHeaders [[''accept'' \<mapsto> ''a'', ''ACCEPT'' \<mapsto> ''b'']] \<lparr>AddMissingHeaders = True, Headers = Some 0\<rparr> [''ACCEPT'', ''accept'']
     \<lparr>Method = ''GET'', URL = ''/'', Header = Some Map.empty\<rparr>"
proof -
  have 1: "range_order (map_read [[''accept'' \<mapsto> ''a'', ''ACCEPT'' \<mapsto> ''b'']] (Headers \<lparr>AddMissingHeaders = True, Headers = Some 0\<rparr>)) [''accept'', ''ACCEPT'']"
    by (auto simp: range_order_def map_read_def)
  have 2: "range_order (map_read [[''accept'' \<mapsto> ''a'', ''ACCEPT'' \<mapsto> ''b'']] (Headers \<lparr>AddMissingHeaders = True, Headers = Some 0\<rparr>)) [''ACCEPT'', ''accept'']"
    by (auto simp: range_order_def map_read_def)
  from merge_twice_is_merge_once [OF 1 2] 1 2 show ?thesis by blast
qed

text \<open>
  C10. Of the Options values passed to \<^verbatim>\<open>AddCloudFlareByPass\<close> only the first is
  used: a call with further values returns what the call with the first value alone
  returns, the decorator holds the first value, and every later \<^verbatim>\<open>RoundTrip\<close> of the
  two decorators gives the same result. (The call only fails on a nil
  \<^verbatim>\<open>*http.Transport\<close>.)
\<close>

theorem only_first_Options_used:
  "AddCloudFlareByPass rt (Some (first # rest)) s = AddCloudFlareByPass rt (Some [first]) s \<and>
   (case AddCloudFlareByPass rt (Some (first # rest)) s of
      Inl p \<Rightarrow> rt = Transport_ptr None
    | Inr (ug, s') \<Rightarrow> options ug = first \<and> s' = s) \<and>
   (case AddCloudFlareByPass rt (Some (first # rest)) s of
      Inl p \<Rightarrow> Inl p
    | Inr (ug, s') \<Rightarrow> RoundTrip T s' ug ks r) =
   (case AddCloudFlareByPass rt (Some [first]) s of
      Inl p \<Rightarrow> Inl p
    | Inr (ug, s') \<Rightarrow> RoundTrip T s' ug ks r)"
proof -
  have e: "AddCloudFlareByPass rt (Some (first # rest)) s = AddCloudFlareByPass rt (Some [first]) s"
    by (cases rt) (auto simp: AddCloudFlareByPass_def split: option.splits)
  have "case AddCloudFlareByPass rt (Some (first # rest)) s of
      Inl p \<Rightarrow> rt = Transport_ptr None
    | Inr (ug, s') \<Rightarrow> options ug = first \<and> s' = s"
    by (cases rt) (auto simp: AddCloudFlareByPass_def split: option.splits)
  then show ?thesis using e by simp
qed

end
